theory Spec2Isabelle
  imports Main "HOL-Library.AList"
begin

section \<open>The in-memory cache manager (src/cache/manager.ts)\<close>

text \<open>
  JavaScript numbers are modelled as unbounded integers: timestamps are the
  milliseconds of \<^verbatim>\<open>Date.now()\<close>, TTLs are whole seconds as in
  \<^verbatim>\<open>DATA_TTL\<close> and \<^verbatim>\<open>DEFAULT_CACHE_CONFIG\<close>. Rounding of doubles and
  fractional TTLs are outside the model. The clock is an explicit argument of
  every operation that reads \<^verbatim>\<open>Date.now()\<close>.
\<close>

record CacheConfig =
  ttlSeconds :: int
  maxEntries :: int

record 'a CacheEntry =
  data :: 'a
  fetchedAt :: int
  expiresAt :: int

text \<open>
  A JavaScript \<^verbatim>\<open>Map\<close> iterates in insertion order, \<^verbatim>\<open>Map.set\<close> on a key that
  is present replaces the value in place and on a new key appends, and
  \<^verbatim>\<open>Map.delete\<close> says whether the key was there. The map is an association list
  in iteration order; \<open>AList.update\<close> and \<open>AList.delete\<close> are these operations.
\<close>

type_synonym 'a entries = "(string \<times> 'a CacheEntry) list"

record 'a CacheManager =
  memoryCache :: "'a entries"
  config :: CacheConfig

definition newCacheManager :: "CacheConfig \<Rightarrow> 'a CacheManager" where
  "newCacheManager cfg = \<lparr>memoryCache = [], config = cfg\<rparr>"

text \<open>The well-formed states: the keys of a \<^verbatim>\<open>Map\<close> are unique.\<close>

definition map_ok :: "'a CacheManager \<Rightarrow> bool" where
  "map_ok c = distinct (map fst (memoryCache c))"

text \<open>
  \<^verbatim>\<open>get\<close>: absent gives null; an entry with \<^verbatim>\<open>expiresAt < Date.now()\<close> is deleted
  and gives null; otherwise the entry. The result is the returned value and the
  manager after the call.
\<close>

definition get :: "'a CacheManager \<Rightarrow> int \<Rightarrow> string \<Rightarrow> 'a CacheEntry option \<times> 'a CacheManager" where
  "get c now key =
     (case map_of (memoryCache c) key of
        None \<Rightarrow> (None, c)
      | Some entry \<Rightarrow>
          if expiresAt entry < now
          then (None, c\<lparr>memoryCache := AList.delete key (memoryCache c)\<rparr>)
          else (Some entry, c))"

text \<open>
  \<^verbatim>\<open>evictOldest\<close>: the loop keeps \<^verbatim>\<open>oldestKey\<close> (null at first) and
  \<^verbatim>\<open>oldestTime\<close> (\<^verbatim>\<open>Number.POSITIVE_INFINITY\<close> at first) and replaces both when
  an entry's \<^verbatim>\<open>fetchedAt\<close> is strictly smaller. The final test \<^verbatim>\<open>if (oldestKey)\<close>
  is JavaScript truthiness of a \<^verbatim>\<open>string | null\<close>: null and the empty string
  are both falsy.
\<close>

datatype oldest_time = POSITIVE_INFINITY | Time int

fun time_lt :: "int \<Rightarrow> oldest_time \<Rightarrow> bool" where
  "time_lt t POSITIVE_INFINITY = True"
| "time_lt t (Time u) = (t < u)"

fun scanOldest :: "'a entries \<Rightarrow> string option \<Rightarrow> oldest_time \<Rightarrow> string option" where
  "scanOldest [] oldestKey oldestTime = oldestKey"
| "scanOldest ((key, entry) # rest) oldestKey oldestTime =
     (if time_lt (fetchedAt entry) oldestTime
      then scanOldest rest (Some key) (Time (fetchedAt entry))
      else scanOldest rest oldestKey oldestTime)"

fun truthy :: "string option \<Rightarrow> bool" where
  "truthy None = False"
| "truthy (Some s) = (s \<noteq> [])"

definition evictOldest :: "'a CacheManager \<Rightarrow> 'a CacheManager" where
  "evictOldest c =
     (let oldestKey = scanOldest (memoryCache c) None POSITIVE_INFINITY
      in if truthy oldestKey
         then c\<lparr>memoryCache := AList.delete (the oldestKey) (memoryCache c)\<rparr>
         else c)"

text \<open>
  \<^verbatim>\<open>set\<close> (named \<open>setC\<close>, as \<open>set\<close> is the set of a list in HOL): the entry is
  built from the clock and \<^verbatim>\<open>ttlOverride ?? config.ttlSeconds\<close>; when
  \<^verbatim>\<open>size >= maxEntries\<close> the eviction runs first; then \<^verbatim>\<open>Map.set\<close>.
\<close>

definition setC :: "'a CacheManager \<Rightarrow> int \<Rightarrow> string \<Rightarrow> 'a \<Rightarrow> int option \<Rightarrow> 'a CacheManager" where
  "setC c now key d ttlOverride =
     (let ttl = (case ttlOverride of Some t \<Rightarrow> t | None \<Rightarrow> ttlSeconds (config c));
          entry = \<lparr>data = d, fetchedAt = now, expiresAt = now + ttl * 1000\<rparr>;
          c1 = (if maxEntries (config c) \<le> int (length (memoryCache c))
                then evictOldest c else c)
      in c1\<lparr>memoryCache := AList.update key entry (memoryCache c1)\<rparr>)"

definition invalidate :: "'a CacheManager \<Rightarrow> string \<Rightarrow> bool \<times> 'a CacheManager" where
  "invalidate c key =
     (key \<in> set (map fst (memoryCache c)),
      c\<lparr>memoryCache := AList.delete key (memoryCache c)\<rparr>)"

definition invalidateAll :: "'a CacheManager \<Rightarrow> 'a CacheManager" where
  "invalidateAll c = c\<lparr>memoryCache := []\<rparr>"

record CacheStats =
  stats_size :: nat
  stats_maxEntries :: int
  stats_ttlSeconds :: int

definition getStats :: "'a CacheManager \<Rightarrow> CacheStats" where
  "getStats c =
     \<lparr>stats_size = length (memoryCache c),
      stats_maxEntries = maxEntries (config c),
      stats_ttlSeconds = ttlSeconds (config c)\<rparr>"

definition getStale :: "'a CacheManager \<Rightarrow> string \<Rightarrow> 'a CacheEntry option" where
  "getStale c key = map_of (memoryCache c) key"

text \<open>
  Sequences of calls on one manager, for the properties that speak of every
  sequence of operations. Each call carries the clock value it reads.
\<close>

datatype 'a op =
    Get string int
  | Set string 'a "int option" int
  | Invalidate string
  | InvalidateAll

fun step :: "'a CacheManager \<Rightarrow> 'a op \<Rightarrow> 'a CacheManager" where
  "step c (Get key now) = snd (get c now key)"
| "step c (Set key d ttlOverride now) = setC c now key d ttlOverride"
| "step c (Invalidate key) = snd (invalidate c key)"
| "step c InvalidateAll = invalidateAll c"

definition run :: "'a CacheManager \<Rightarrow> 'a op list \<Rightarrow> 'a CacheManager" where
  "run c ops = foldl step c ops"

fun set_key :: "'a op \<Rightarrow> string option" where
  "set_key (Set key d ttlOverride now) = Some key"
| "set_key other = None"

section \<open>The NOAA client (src/noaa/client.ts)\<close>

text \<open>The keys of \<^verbatim>\<open>NOAA_ENDPOINTS\<close> (src/noaa/types.ts), in the order of the table.\<close>

datatype EndpointKey =
    XRAY_FLUX
  | KP_INDEX
  | SOLAR_WIND_REALTIME
  | SOLAR_WIND_MAG
  | PREDICTED_SFI
  | FORECAST_27DAY
  | SUNSPOT_NUMBER
  | ALERTS
  | PROTON_FLUX
  | DST_INDEX
  | AURORA_FORECAST

fun NOAA_ENDPOINTS :: "EndpointKey \<Rightarrow> string" where
  "NOAA_ENDPOINTS XRAY_FLUX = ''https://services.swpc.noaa.gov/json/goes/primary/xrays-7-day.json''"
| "NOAA_ENDPOINTS KP_INDEX = ''https://services.swpc.noaa.gov/products/noaa-planetary-k-index.json''"
| "NOAA_ENDPOINTS SOLAR_WIND_REALTIME = ''https://services.swpc.noaa.gov/products/solar-wind/plasma-7-day.json''"
| "NOAA_ENDPOINTS SOLAR_WIND_MAG = ''https://services.swpc.noaa.gov/products/solar-wind/mag-7-day.json''"
| "NOAA_ENDPOINTS PREDICTED_SFI = ''https://services.swpc.noaa.gov/json/f107_cm_flux.json''"
| "NOAA_ENDPOINTS FORECAST_27DAY = ''https://services.swpc.noaa.gov/products/27-day-outlook.json''"
| "NOAA_ENDPOINTS SUNSPOT_NUMBER = ''https://services.swpc.noaa.gov/json/solar-cycle/observed-solar-cycle-indices.json''"
| "NOAA_ENDPOINTS ALERTS = ''https://services.swpc.noaa.gov/products/alerts.json''"
| "NOAA_ENDPOINTS PROTON_FLUX = ''https://services.swpc.noaa.gov/json/goes/primary/integral-protons-7-day.json''"
| "NOAA_ENDPOINTS DST_INDEX = ''https://services.swpc.noaa.gov/products/kyoto-dst.json''"
| "NOAA_ENDPOINTS AURORA_FORECAST = ''https://services.swpc.noaa.gov/products/animations/ovation_north_24h.json''"

text \<open>The key as the template \<^verbatim>\<open>`noaa_${endpoint}`\<close> prints it.\<close>

fun endpoint_name :: "EndpointKey \<Rightarrow> string" where
  "endpoint_name XRAY_FLUX = ''XRAY_FLUX''"
| "endpoint_name KP_INDEX = ''KP_INDEX''"
| "endpoint_name SOLAR_WIND_REALTIME = ''SOLAR_WIND_REALTIME''"
| "endpoint_name SOLAR_WIND_MAG = ''SOLAR_WIND_MAG''"
| "endpoint_name PREDICTED_SFI = ''PREDICTED_SFI''"
| "endpoint_name FORECAST_27DAY = ''FORECAST_27DAY''"
| "endpoint_name SUNSPOT_NUMBER = ''SUNSPOT_NUMBER''"
| "endpoint_name ALERTS = ''ALERTS''"
| "endpoint_name PROTON_FLUX = ''PROTON_FLUX''"
| "endpoint_name DST_INDEX = ''DST_INDEX''"
| "endpoint_name AURORA_FORECAST = ''AURORA_FORECAST''"

definition cacheKey :: "EndpointKey \<Rightarrow> string" where
  "cacheKey endpoint = ''noaa_'' @ endpoint_name endpoint"

text \<open>\<^verbatim>\<open>DATA_TTL\<close> (src/cache/manager.ts), in seconds.\<close>

datatype DataKind = TTL_XRAY_FLUX | TTL_KP_INDEX | TTL_SOLAR_WIND | TTL_FORECAST | TTL_HISTORICAL | TTL_ALERTS

fun DATA_TTL :: "DataKind \<Rightarrow> int" where
  "DATA_TTL TTL_XRAY_FLUX = 60"
| "DATA_TTL TTL_KP_INDEX = 180"
| "DATA_TTL TTL_SOLAR_WIND = 60"
| "DATA_TTL TTL_FORECAST = 3600"
| "DATA_TTL TTL_HISTORICAL = 86400"
| "DATA_TTL TTL_ALERTS = 60"

text \<open>\<^verbatim>\<open>getTtlForEndpoint\<close>: the switch, with its default branch last.\<close>

fun getTtlForEndpoint :: "EndpointKey \<Rightarrow> int" where
  "getTtlForEndpoint XRAY_FLUX = DATA_TTL TTL_XRAY_FLUX"
| "getTtlForEndpoint PROTON_FLUX = DATA_TTL TTL_XRAY_FLUX"
| "getTtlForEndpoint KP_INDEX = DATA_TTL TTL_KP_INDEX"
| "getTtlForEndpoint SOLAR_WIND_REALTIME = DATA_TTL TTL_SOLAR_WIND"
| "getTtlForEndpoint SOLAR_WIND_MAG = DATA_TTL TTL_SOLAR_WIND"
| "getTtlForEndpoint FORECAST_27DAY = DATA_TTL TTL_FORECAST"
| "getTtlForEndpoint PREDICTED_SFI = DATA_TTL TTL_FORECAST"
| "getTtlForEndpoint SUNSPOT_NUMBER = DATA_TTL TTL_HISTORICAL"
| "getTtlForEndpoint ALERTS = DATA_TTL TTL_ALERTS"
| "getTtlForEndpoint other = DATA_TTL TTL_KP_INDEX"

text \<open>
  \<^verbatim>\<open>ApiResponse<T>\<close>: the optional fields are options; \<open>rdata\<close> is the field
  \<^verbatim>\<open>data\<close> (the name is taken by the cache entry's field).
\<close>

datatype source = Cache | Fetch

record 'a ApiResponse =
  success :: bool
  rdata :: "'a option"
  error :: "string option"
  cachedAt :: "int option"
  source :: source

text \<open>
  The second argument \<^verbatim>\<open>options?: { forceRefresh?: boolean; ttl?: number }\<close>: the
  argument and each of its fields may be missing.
\<close>

record options =
  forceRefresh :: "bool option"
  ttl :: "int option"

text \<open>\<^verbatim>\<open>!options?.forceRefresh\<close>: true unless the field is there and true.\<close>

definition not_forceRefresh :: "options option \<Rightarrow> bool" where
  "not_forceRefresh opts =
     (case opts of
        None \<Rightarrow> True
      | Some o' \<Rightarrow> (case forceRefresh o' of None \<Rightarrow> True | Some b \<Rightarrow> \<not> b))"

text \<open>\<^verbatim>\<open>options?.ttl\<close>, the left side of \<^verbatim>\<open>??\<close>.\<close>

definition options_ttl :: "options option \<Rightarrow> int option" where
  "options_ttl opts = (case opts of None \<Rightarrow> None | Some o' \<Rightarrow> ttl o')"

text \<open>
  The outside world of one call. A thrown value is an \<^verbatim>\<open>Error\<close> with its message
  or anything else. \<^verbatim>\<open>fetch(url, ...)\<close> throws or gives a response with a status,
  a status text and a body whose \<^verbatim>\<open>json()\<close> throws or gives the payload.
  \<^verbatim>\<open>response.ok\<close> is a status from 200 to 299. The clock is read by \<^verbatim>\<open>cache.get\<close>,
  by \<^verbatim>\<open>cache.set\<close> and for \<^verbatim>\<open>cachedAt\<close> of a fetched result.
\<close>

datatype thrown = Error string | NotAnError

datatype 'a json_result = Payload 'a | JsonThrows thrown

datatype 'a fetch_result = FetchThrows thrown | Response nat string "'a json_result"

record 'a world =
  network :: "string \<Rightarrow> 'a fetch_result"
  clock_get :: int
  clock_set :: int
  clock_return :: int

definition ok :: "nat \<Rightarrow> bool" where
  "ok status \<longleftrightarrow> 200 \<le> status \<and> status \<le> 299"

text \<open>A number in a template string: its decimal digits.\<close>

definition digit_char :: "nat \<Rightarrow> char" where
  "digit_char d = char_of (48 + d)"

fun string_of_nat :: "nat \<Rightarrow> string" where
  "string_of_nat n =
     (if n < 10 then [digit_char n] else string_of_nat (n div 10) @ [digit_char (n mod 10)])"

declare string_of_nat.simps [simp del]

text \<open>\<^verbatim>\<open>error instanceof Error ? error.message : 'Unknown error'\<close>\<close>

fun message_of :: "thrown \<Rightarrow> string" where
  "message_of (Error m) = m"
| "message_of NotAnError = ''Unknown error''"

text \<open>
  The outcome of a call: how the promise settles (\<open>Inl\<close> a rejection with the
  thrown value, \<open>Inr\<close> the resolved response), the cache manager after the call,
  and the URLs that were requested from the network, in order.
\<close>

type_synonym 'a outcome = "(thrown + 'a ApiResponse) \<times> 'a CacheManager \<times> string list"

text \<open>The body of the \<^verbatim>\<open>try\<close> block: \<open>Inl\<close> is a value thrown inside it.\<close>

definition tryBlock :: "'a CacheManager \<Rightarrow> 'a world \<Rightarrow> EndpointKey \<Rightarrow> options option \<Rightarrow> 'a outcome" where
  "tryBlock c w endpoint opts =
     (let url = NOAA_ENDPOINTS endpoint in
      case network w url of
        FetchThrows err \<Rightarrow> (Inl err, c, [url])
      | Response status statusText body \<Rightarrow>
          if \<not> ok status then
            (case getStale c (cacheKey endpoint) of
               Some stale \<Rightarrow>
                 (Inr \<lparr>success = True, rdata = Some (data stale),
                       error = Some (''API returned '' @ string_of_nat status @ '', using stale cache''),
                       cachedAt = Some (fetchedAt stale), source = Cache\<rparr>, c, [url])
             | None \<Rightarrow>
                 (Inl (Error (''HTTP '' @ string_of_nat status @ '': '' @ statusText)), c, [url]))
          else
            (case body of
               JsonThrows err \<Rightarrow> (Inl err, c, [url])
             | Payload d \<Rightarrow>
                 (let t = (case options_ttl opts of Some t \<Rightarrow> t | None \<Rightarrow> getTtlForEndpoint endpoint);
                      c' = setC c (clock_set w) (cacheKey endpoint) d (Some t)
                  in (Inr \<lparr>success = True, rdata = Some d, error = None,
                           cachedAt = Some (clock_return w), source = Fetch\<rparr>, c', [url]))))"

text \<open>The \<^verbatim>\<open>catch\<close> block.\<close>

definition catchBlock :: "'a CacheManager \<Rightarrow> EndpointKey \<Rightarrow> thrown \<Rightarrow> 'a ApiResponse" where
  "catchBlock c endpoint err =
     (case getStale c (cacheKey endpoint) of
        Some stale \<Rightarrow>
          \<lparr>success = True, rdata = Some (data stale),
           error = Some (''Fetch failed: '' @ message_of err @ '', using stale cache''),
           cachedAt = Some (fetchedAt stale), source = Cache\<rparr>
      | None \<Rightarrow>
          \<lparr>success = False, rdata = None, error = Some (message_of err),
           cachedAt = None, source = Fetch\<rparr>)"

text \<open>
  The cache check at the start: \<^verbatim>\<open>cache.get\<close> is called unless \<^verbatim>\<open>forceRefresh\<close> is
  set, and then nothing is read and the manager is untouched.
\<close>

definition probe :: "'a CacheManager \<Rightarrow> 'a world \<Rightarrow> EndpointKey \<Rightarrow> options option \<Rightarrow> 'a CacheEntry option \<times> 'a CacheManager" where
  "probe c w endpoint opts =
     (if not_forceRefresh opts then get c (clock_get w) (cacheKey endpoint) else (None, c))"

definition fetchEndpoint :: "'a CacheManager \<Rightarrow> 'a world \<Rightarrow> EndpointKey \<Rightarrow> options option \<Rightarrow> 'a outcome" where
  "fetchEndpoint c w endpoint opts =
     (case probe c w endpoint opts of
        (Some cached, c1) \<Rightarrow>
          (Inr \<lparr>success = True, rdata = Some (data cached), error = None,
                cachedAt = Some (fetchedAt cached), source = Cache\<rparr>, c1, [])
      | (None, c1) \<Rightarrow>
          (case tryBlock c1 w endpoint opts of
             (Inr r, c', urls) \<Rightarrow> (Inr r, c', urls)
           | (Inl err, c', urls) \<Rightarrow> (Inr (catchBlock c' endpoint err), c', urls)))"

text \<open>
  The retrieval of a call completes successfully when the request returns a 2xx
  status and its body parses.
\<close>

fun retrieved :: "'a fetch_result \<Rightarrow> bool" where
  "retrieved (Response status statusText (Payload d)) = ok status"
| "retrieved other = False"

text \<open>
  What "the first entry of smallest \<^verbatim>\<open>fetchedAt\<close> in iteration order" means: the
  map splits into the entries before the victim, all strictly younger, the
  victim, and the entries after it, none older.
\<close>

definition first_oldest :: "'a entries \<Rightarrow> 'a entries \<Rightarrow> string \<Rightarrow> 'a CacheEntry \<Rightarrow> 'a entries \<Rightarrow> bool" where
  "first_oldest al pre k e post \<longleftrightarrow>
     al = pre @ (k, e) # post
     \<and> (\<forall>p \<in> set pre. fetchedAt e < fetchedAt (snd p))
     \<and> (\<forall>p \<in> set post. fetchedAt e \<le> fetchedAt (snd p))"

text \<open>
  The states in which the capacity bound is kept: unique keys, no empty-string
  key, and no more entries than \<^verbatim>\<open>maxEntries\<close>.
\<close>

definition within_capacity :: "'a CacheManager \<Rightarrow> bool" where
  "within_capacity c \<longleftrightarrow>
     map_ok c \<and> [] \<notin> set (map fst (memoryCache c))
     \<and> int (length (memoryCache c)) \<le> maxEntries (config c)"

section \<open>Properties\<close>

lemma config_get [simp]: "config (snd (get c now key)) = config c"
  by (simp add: get_def split: option.splits)

lemma map_of_evictOldest_None:
  "map_of (memoryCache c) k = None \<Longrightarrow> map_of (memoryCache (evictOldest c)) k = None"
  by (simp add: evictOldest_def Let_def delete_conv')

lemma config_evictOldest [simp]: "config (evictOldest c) = config c"
  by (simp add: evictOldest_def Let_def)

lemma config_setC [simp]: "config (setC c now key d ttlOverride) = config c"
  by (simp add: setC_def Let_def)

lemma map_of_setC_same:
  "map_of (memoryCache (setC c now k v ttlOverride)) k =
     Some \<lparr>data = v, fetchedAt = now,
           expiresAt = now + (case ttlOverride of Some t \<Rightarrow> t | None \<Rightarrow> ttlSeconds (config c)) * 1000\<rparr>"
  by (simp add: setC_def Let_def update_conv')

lemma map_of_setC_other_None:
  "k \<noteq> key \<Longrightarrow> map_of (memoryCache c) k = None \<Longrightarrow>
     map_of (memoryCache (setC c now key d ttlOverride)) k = None"
  by (simp add: setC_def Let_def update_conv' map_of_evictOldest_None)

lemma map_of_get_None:
  "map_of (memoryCache c) k = None \<Longrightarrow> map_of (memoryCache (snd (get c now key))) k = None"
  by (simp add: get_def delete_conv' split: option.splits)

lemma map_of_step_None:
  "map_of (memoryCache c) k = None \<Longrightarrow> set_key x \<noteq> Some k \<Longrightarrow>
     map_of (memoryCache (step c x)) k = None"
  by (cases x) (simp_all add: map_of_get_None map_of_setC_other_None invalidate_def
       invalidateAll_def delete_conv')

lemma map_of_run_None:
  "map_of (memoryCache c) k = None \<Longrightarrow> \<forall>x \<in> set ops. set_key x \<noteq> Some k \<Longrightarrow>
     map_of (memoryCache (run c ops)) k = None"
  unfolding run_def
proof (induction ops arbitrary: c)
  case Nil
  then show ?case by simp
next
  case (Cons x ops)
  from Cons.prems have "map_of (memoryCache (step c x)) k = None"
    by (simp add: map_of_step_None)
  with Cons show ?case by simp
qed

subsection \<open>The eviction scan\<close>

lemma scanOldest_acc:
  "scanOldest al (Some k0) (Time t0) = Some k0 \<and> (\<forall>p \<in> set al. t0 \<le> fetchedAt (snd p))
   \<or> (\<exists>pre k e post. first_oldest al pre k e post \<and> fetchedAt e < t0
        \<and> scanOldest al (Some k0) (Time t0) = Some k)"
proof (induction al arbitrary: k0 t0)
  case Nil
  then show ?case by simp
next
  case (Cons p rest)
  obtain k1 e1 where p: "p = (k1, e1)" by (cases p)
  show ?case
  proof (cases "fetchedAt e1 < t0")
    case True
    from Cons.IH [of k1 "fetchedAt e1"] show ?thesis
    proof
      assume "scanOldest rest (Some k1) (Time (fetchedAt e1)) = Some k1
                \<and> (\<forall>p \<in> set rest. fetchedAt e1 \<le> fetchedAt (snd p))"
      then have "first_oldest (p # rest) [] k1 e1 rest
                   \<and> scanOldest (p # rest) (Some k0) (Time t0) = Some k1"
        using True by (simp add: p first_oldest_def)
      with True show ?thesis by blast
    next
      assume "\<exists>pre k e post. first_oldest rest pre k e post \<and> fetchedAt e < fetchedAt e1
                \<and> scanOldest rest (Some k1) (Time (fetchedAt e1)) = Some k"
      then obtain pre k e post where
        f: "first_oldest rest pre k e post" and lt: "fetchedAt e < fetchedAt e1"
        and s: "scanOldest rest (Some k1) (Time (fetchedAt e1)) = Some k"
        by blast
      from f lt have "first_oldest (p # rest) (p # pre) k e post"
        by (simp add: first_oldest_def p)
      moreover from lt True have "fetchedAt e < t0" by simp
      moreover from s True have "scanOldest (p # rest) (Some k0) (Time t0) = Some k"
        by (simp add: p)
      ultimately show ?thesis by blast
    qed
  next
    case False
    from Cons.IH [of k0 t0] show ?thesis
    proof
      assume "scanOldest rest (Some k0) (Time t0) = Some k0
                \<and> (\<forall>p \<in> set rest. t0 \<le> fetchedAt (snd p))"
      with False show ?thesis by (simp add: p)
    next
      assume "\<exists>pre k e post. first_oldest rest pre k e post \<and> fetchedAt e < t0
                \<and> scanOldest rest (Some k0) (Time t0) = Some k"
      then obtain pre k e post where
        f: "first_oldest rest pre k e post" and lt: "fetchedAt e < t0"
        and s: "scanOldest rest (Some k0) (Time t0) = Some k"
        by blast
      from f lt False have "first_oldest (p # rest) (p # pre) k e post"
        by (simp add: first_oldest_def p)
      moreover from s False have "scanOldest (p # rest) (Some k0) (Time t0) = Some k"
        by (simp add: p)
      ultimately show ?thesis using lt by blast
    qed
  qed
qed

lemma scanOldest_first_oldest:
  assumes "al \<noteq> []"
  shows "\<exists>pre k e post. first_oldest al pre k e post
           \<and> scanOldest al None POSITIVE_INFINITY = Some k"
proof -
  from assms obtain k1 e1 rest where al: "al = (k1, e1) # rest"
    by (cases al) auto
  from scanOldest_acc [of rest k1 "fetchedAt e1"] show ?thesis
  proof
    assume "scanOldest rest (Some k1) (Time (fetchedAt e1)) = Some k1
              \<and> (\<forall>p \<in> set rest. fetchedAt e1 \<le> fetchedAt (snd p))"
    then have "first_oldest al [] k1 e1 rest \<and> scanOldest al None POSITIVE_INFINITY = Some k1"
      by (simp add: al first_oldest_def)
    then show ?thesis by blast
  next
    assume "\<exists>pre k e post. first_oldest rest pre k e post \<and> fetchedAt e < fetchedAt e1
              \<and> scanOldest rest (Some k1) (Time (fetchedAt e1)) = Some k"
    then obtain pre k e post where
      f: "first_oldest rest pre k e post" and lt: "fetchedAt e < fetchedAt e1"
      and s: "scanOldest rest (Some k1) (Time (fetchedAt e1)) = Some k"
      by blast
    from f lt have "first_oldest al ((k1, e1) # pre) k e post"
      by (simp add: first_oldest_def al)
    moreover from s have "scanOldest al None POSITIVE_INFINITY = Some k"
      by (simp add: al)
    ultimately show ?thesis by blast
  qed
qed

lemma delete_distinct_split:
  assumes "distinct (map fst (pre @ (k, e) # post))"
  shows "AList.delete k (pre @ (k, e) # post) = pre @ post"
proof -
  from assms have "k \<notin> fst ` set pre" and "k \<notin> fst ` set post" by auto
  then have "AList.delete k pre = pre" and "AList.delete k post = post" by simp_all
  then show ?thesis by (simp add: AList.delete_eq)
qed

lemma evictOldest_first_oldest:
  assumes ok: "map_ok c" and ne: "memoryCache c \<noteq> []"
    and keys: "[] \<notin> set (map fst (memoryCache c))"
  shows "\<exists>pre k e post. first_oldest (memoryCache c) pre k e post
           \<and> evictOldest c = c\<lparr>memoryCache := pre @ post\<rparr>"
proof -
  from scanOldest_first_oldest [OF ne] obtain pre k e post where
    f: "first_oldest (memoryCache c) pre k e post"
    and s: "scanOldest (memoryCache c) None POSITIVE_INFINITY = Some k"
    by blast
  from f have al: "memoryCache c = pre @ (k, e) # post" by (simp add: first_oldest_def)
  with keys have "k \<noteq> []" by auto
  moreover from ok al have "AList.delete k (memoryCache c) = pre @ post"
    by (simp add: map_ok_def delete_distinct_split)
  ultimately have "evictOldest c = c\<lparr>memoryCache := pre @ post\<rparr>"
    by (simp add: evictOldest_def s)
  with f show ?thesis by blast
qed

subsection \<open>Insertion and the capacity bound\<close>

text \<open>
  On a manager with unique, non-empty keys: below capacity \<^verbatim>\<open>set\<close> only inserts; at
  capacity (and with at least one entry) it first removes exactly the first
  entry of smallest \<^verbatim>\<open>fetchedAt\<close>, also when the key being set is present. From
  the empty manager, calls that never set the empty-string key keep the size
  within a positive \<^verbatim>\<open>maxEntries\<close>.
\<close>

lemma length_update_le: "length (AList.update k v al) \<le> Suc (length al)"
  by (induction al) simp_all

lemma setC_below_capacity:
  assumes "int (length (memoryCache c)) < maxEntries (config c)"
  shows "setC c now key d ttlOverride =
           c\<lparr>memoryCache := AList.update key
                \<lparr>data = d, fetchedAt = now,
                 expiresAt = now + (case ttlOverride of Some t \<Rightarrow> t | None \<Rightarrow> ttlSeconds (config c)) * 1000\<rparr>
                (memoryCache c)\<rparr>"
  using assms by (simp add: setC_def Let_def)

lemma setC_at_capacity:
  assumes ok: "map_ok c" and keys: "[] \<notin> set (map fst (memoryCache c))"
    and ne: "memoryCache c \<noteq> []"
    and full: "maxEntries (config c) \<le> int (length (memoryCache c))"
  shows "\<exists>pre k e post. first_oldest (memoryCache c) pre k e post
           \<and> setC c now key d ttlOverride =
               c\<lparr>memoryCache := AList.update key
                    \<lparr>data = d, fetchedAt = now,
                     expiresAt = now + (case ttlOverride of Some t \<Rightarrow> t | None \<Rightarrow> ttlSeconds (config c)) * 1000\<rparr>
                    (pre @ post)\<rparr>"
proof -
  from evictOldest_first_oldest [OF ok ne keys] obtain pre k e post where
    f: "first_oldest (memoryCache c) pre k e post"
    and ev: "evictOldest c = c\<lparr>memoryCache := pre @ post\<rparr>"
    by blast
  from full ev have "setC c now key d ttlOverride =
      c\<lparr>memoryCache := AList.update key
           \<lparr>data = d, fetchedAt = now,
            expiresAt = now + (case ttlOverride of Some t \<Rightarrow> t | None \<Rightarrow> ttlSeconds (config c)) * 1000\<rparr>
           (pre @ post)\<rparr>"
    by (simp add: setC_def Let_def)
  with f show ?thesis by blast
qed

lemma within_capacity_setC:
  assumes inv: "within_capacity c" and pos: "0 < maxEntries (config c)" and key: "key \<noteq> []"
  shows "within_capacity (setC c now key d ttlOverride)"
proof (cases "int (length (memoryCache c)) < maxEntries (config c)")
  case True
  have "int (length (AList.update key v (memoryCache c))) \<le> maxEntries (config c)" for v
  proof -
    have "length (AList.update key v (memoryCache c)) \<le> Suc (length (memoryCache c))"
      by (rule length_update_le)
    with True show ?thesis by linarith
  qed
  with inv key show ?thesis
    by (simp add: setC_below_capacity [OF True] within_capacity_def map_ok_def
        distinct_update dom_update)
next
  case False
  then have full: "maxEntries (config c) \<le> int (length (memoryCache c))" by simp
  with pos have ne: "memoryCache c \<noteq> []" by auto
  from inv have ok: "map_ok c" and keys: "[] \<notin> set (map fst (memoryCache c))"
    and le: "int (length (memoryCache c)) \<le> maxEntries (config c)"
    by (simp_all add: within_capacity_def)
  from setC_at_capacity [OF ok keys ne full, of now key d ttlOverride]
  obtain pre k e post v where
    f: "first_oldest (memoryCache c) pre k e post"
    and s: "setC c now key d ttlOverride = c\<lparr>memoryCache := AList.update key v (pre @ post)\<rparr>"
    by blast
  from f have al: "memoryCache c = pre @ (k, e) # post" by (simp add: first_oldest_def)
  have "length (AList.update key v (pre @ post)) \<le> Suc (length (pre @ post))"
    by (rule length_update_le)
  with al le have "int (length (AList.update key v (pre @ post))) \<le> maxEntries (config c)"
    by simp
  moreover from ok al have "distinct (map fst (AList.update key v (pre @ post)))"
    by (intro distinct_update) (simp add: map_ok_def)
  moreover from keys al key have "[] \<notin> set (map fst (AList.update key v (pre @ post)))"
    by (auto simp add: dom_update)
  ultimately show ?thesis
    by (simp add: s within_capacity_def map_ok_def)
qed

lemma within_capacity_delete:
  assumes "within_capacity c"
  shows "within_capacity (c\<lparr>memoryCache := AList.delete key (memoryCache c)\<rparr>)"
proof -
  have "length (AList.delete key (memoryCache c)) \<le> length (memoryCache c)"
    by (rule length_delete_le)
  moreover have "fst ` set (AList.delete key (memoryCache c)) \<subseteq> fst ` set (memoryCache c)"
    by (rule dom_delete_subset)
  ultimately show ?thesis
    using assms by (auto simp add: within_capacity_def map_ok_def distinct_delete)
qed

lemma within_capacity_step:
  assumes "within_capacity c" and "0 < maxEntries (config c)" and "set_key x \<noteq> Some []"
  shows "within_capacity (step c x) \<and> config (step c x) = config c"
proof (cases x)
  case (Get key now)
  with assms(1) show ?thesis
    by (auto simp add: get_def within_capacity_delete split: option.splits)
next
  case (Set key d ttlOverride now)
  with assms show ?thesis by (simp add: within_capacity_setC)
next
  case (Invalidate key)
  with assms(1) show ?thesis by (simp add: invalidate_def within_capacity_delete)
next
  case InvalidateAll
  with assms(1,2) show ?thesis by (simp add: invalidateAll_def within_capacity_def map_ok_def)
qed

lemma within_capacity_run:
  assumes "within_capacity c" and "0 < maxEntries (config c)"
    and "\<forall>x \<in> set ops. set_key x \<noteq> Some []"
  shows "within_capacity (run c ops) \<and> config (run c ops) = config c"
  using assms unfolding run_def
proof (induction ops arbitrary: c)
  case Nil
  then show ?case by simp
next
  case (Cons x ops)
  from Cons.prems have "within_capacity (step c x) \<and> config (step c x) = config c"
    by (simp add: within_capacity_step)
  with Cons show ?case by simp
qed

subsection \<open>The claims about the cache manager\<close>

text \<open>
  C1, as amended: the comparison in \<^verbatim>\<open>get\<close> is strict. For an entry stored under a
  key, \<^verbatim>\<open>get\<close> at a clock value after \<^verbatim>\<open>expiresAt\<close> returns null and deletes the
  entry, \<^verbatim>\<open>get\<close> at a clock value up to and including \<^verbatim>\<open>expiresAt\<close> returns the
  entry and changes nothing, and \<^verbatim>\<open>getStale\<close> on the same manager returns the
  entry, data included, whatever the clock says.
\<close>

theorem get_expiry_strict:
  assumes "map_of (memoryCache c) key = Some entry"
  shows "get c now key =
           (if expiresAt entry < now
            then (None, c\<lparr>memoryCache := AList.delete key (memoryCache c)\<rparr>)
            else (Some entry, c))
         \<and> getStale (c\<lparr>memoryCache := AList.delete key (memoryCache c)\<rparr>) key = None
         \<and> getStale c key = Some entry"
  using assms by (simp add: get_def getStale_def delete_conv')

text \<open>The amended C1 at an entry that expired one millisecond ago.\<close>

theorem get_expiry_strict_witness:
  "map_of (memoryCache \<lparr>memoryCache = [(''x'', \<lparr>data = ''d'', fetchedAt = 0, expiresAt = 100\<rparr>)],
                        config = \<lparr>ttlSeconds = 1, maxEntries = 10\<rparr>\<rparr>) ''x''
     = Some \<lparr>data = ''d'', fetchedAt = 0, expiresAt = 100\<rparr>
   \<and> get \<lparr>memoryCache = [(''x'', \<lparr>data = ''d'', fetchedAt = 0, expiresAt = 100\<rparr>)],
           config = \<lparr>ttlSeconds = 1, maxEntries = 10\<rparr>\<rparr> 101 ''x''
     = (None, \<lparr>memoryCache = [], config = \<lparr>ttlSeconds = 1, maxEntries = 10\<rparr>\<rparr>)
   \<and> getStale \<lparr>memoryCache = [(''x'', \<lparr>data = ''d'', fetchedAt = 0, expiresAt = 100\<rparr>)],
                config = \<lparr>ttlSeconds = 1, maxEntries = 10\<rparr>\<rparr> ''x''
     = Some \<lparr>data = ''d'', fetchedAt = 0, expiresAt = 100\<rparr>"
  using get_expiry_strict
    [of "\<lparr>memoryCache = [(''x'', \<lparr>data = ''d'', fetchedAt = 0, expiresAt = 100\<rparr>)],
          config = \<lparr>ttlSeconds = 1, maxEntries = 10\<rparr>\<rparr>"
        "''x''" "\<lparr>data = ''d'', fetchedAt = 0, expiresAt = 100\<rparr>" 101]
  by simp

text \<open>
  C1 as stated fails at the boundary: an entry set at time 0 with a TTL of one
  second has \<^verbatim>\<open>expiresAt = 1000\<close>, and \<^verbatim>\<open>get\<close> at the clock value 1000 returns it.
\<close>

theorem get_boundary_counterexample:
  "fst (get (setC (newCacheManager \<lparr>ttlSeconds = 1, maxEntries = 10\<rparr>) 0 ''x'' ''d'' None) 1000 ''x'')
     = Some \<lparr>data = ''d'', fetchedAt = 0, expiresAt = 1000\<rparr>"
  by (simp add: get_def setC_def newCacheManager_def Let_def)

text \<open>
  C2, for managers with unique, non-empty keys and a positive \<^verbatim>\<open>maxEntries\<close>:
  a \<^verbatim>\<open>set(key, data, ttlOverride)\<close> on a manager whose size is at least
  \<^verbatim>\<open>maxEntries\<close> first removes exactly one entry, the first in iteration order
  among those of smallest \<^verbatim>\<open>fetchedAt\<close> (every entry before it is strictly
  younger, none after it is older), and then inserts into what is left, whether
  or not the key being set is present; on a manager whose size is below
  \<^verbatim>\<open>maxEntries\<close> it removes nothing and only inserts.
\<close>

theorem setC_evicts_first_oldest:
  assumes "map_ok c" and "[] \<notin> set (map fst (memoryCache c))" and "0 < maxEntries (config c)"
  shows "(maxEntries (config c) \<le> int (length (memoryCache c)) \<longrightarrow>
            (\<exists>pre k e post.
               first_oldest (memoryCache c) pre k e post
               \<and> evictOldest c = c\<lparr>memoryCache := pre @ post\<rparr>
               \<and> Suc (length (pre @ post)) = length (memoryCache c)
               \<and> setC c now key d ttlOverride =
                   c\<lparr>memoryCache := AList.update key
                        \<lparr>data = d, fetchedAt = now,
                         expiresAt = now + (case ttlOverride of Some t \<Rightarrow> t
                                            | None \<Rightarrow> ttlSeconds (config c)) * 1000\<rparr>
                        (pre @ post)\<rparr>))
         \<and> (int (length (memoryCache c)) < maxEntries (config c) \<longrightarrow>
              setC c now key d ttlOverride =
                c\<lparr>memoryCache := AList.update key
                     \<lparr>data = d, fetchedAt = now,
                      expiresAt = now + (case ttlOverride of Some t \<Rightarrow> t
                                         | None \<Rightarrow> ttlSeconds (config c)) * 1000\<rparr>
                     (memoryCache c)\<rparr>)"
proof (intro conjI impI)
  assume full: "maxEntries (config c) \<le> int (length (memoryCache c))"
  with assms(3) have ne: "memoryCache c \<noteq> []" by auto
  from evictOldest_first_oldest [OF assms(1) ne assms(2)] obtain pre k e post where
    f: "first_oldest (memoryCache c) pre k e post"
    and ev: "evictOldest c = c\<lparr>memoryCache := pre @ post\<rparr>"
    by blast
  from f have len: "Suc (length (pre @ post)) = length (memoryCache c)"
    by (simp add: first_oldest_def)
  from full ev have "setC c now key d ttlOverride =
      c\<lparr>memoryCache := AList.update key
           \<lparr>data = d, fetchedAt = now,
            expiresAt = now + (case ttlOverride of Some t \<Rightarrow> t
                               | None \<Rightarrow> ttlSeconds (config c)) * 1000\<rparr>
           (pre @ post)\<rparr>"
    by (simp add: setC_def Let_def)
  with f ev len show "\<exists>pre k e post.
      first_oldest (memoryCache c) pre k e post
      \<and> evictOldest c = c\<lparr>memoryCache := pre @ post\<rparr>
      \<and> Suc (length (pre @ post)) = length (memoryCache c)
      \<and> setC c now key d ttlOverride =
          c\<lparr>memoryCache := AList.update key
               \<lparr>data = d, fetchedAt = now,
                expiresAt = now + (case ttlOverride of Some t \<Rightarrow> t
                                   | None \<Rightarrow> ttlSeconds (config c)) * 1000\<rparr>
               (pre @ post)\<rparr>"
    by blast
next
  assume "int (length (memoryCache c)) < maxEntries (config c)"
  then show "setC c now key d ttlOverride =
      c\<lparr>memoryCache := AList.update key
           \<lparr>data = d, fetchedAt = now,
            expiresAt = now + (case ttlOverride of Some t \<Rightarrow> t
                               | None \<Rightarrow> ttlSeconds (config c)) * 1000\<rparr>
           (memoryCache c)\<rparr>"
    by (rule setC_below_capacity)
qed

text \<open>
  C2 on a full manager of two entries fetched in the same millisecond, when the
  second key is set again: the first of the two is the victim, and the key
  being set keeps its place.
\<close>

theorem setC_evicts_first_oldest_witness:
  "map_ok \<lparr>memoryCache = [(''key-0'', \<lparr>data = ''value-0'', fetchedAt = 7, expiresAt = 60007\<rparr>),
                           (''key-1'', \<lparr>data = ''value-1'', fetchedAt = 7, expiresAt = 60007\<rparr>)],
           config = \<lparr>ttlSeconds = 60, maxEntries = 2\<rparr>\<rparr>
   \<and> (\<exists>pre k e post.
        first_oldest [(''key-0'', \<lparr>data = ''value-0'', fetchedAt = 7, expiresAt = 60007\<rparr>),
                      (''key-1'', \<lparr>data = ''value-1'', fetchedAt = 7, expiresAt = 60007\<rparr>)]
          pre k e post
        \<and> Suc (length (pre @ post)) = 2)
   \<and> setC \<lparr>memoryCache = [(''key-0'', \<lparr>data = ''value-0'', fetchedAt = 7, expiresAt = 60007\<rparr>),
                           (''key-1'', \<lparr>data = ''value-1'', fetchedAt = 7, expiresAt = 60007\<rparr>)],
            config = \<lparr>ttlSeconds = 60, maxEntries = 2\<rparr>\<rparr> 9 ''key-1'' ''again'' None
     = \<lparr>memoryCache = [(''key-1'', \<lparr>data = ''again'', fetchedAt = 9, expiresAt = 60009\<rparr>)],
        config = \<lparr>ttlSeconds = 60, maxEntries = 2\<rparr>\<rparr>"
proof -
  let ?c = "\<lparr>memoryCache = [(''key-0'', \<lparr>data = ''value-0'', fetchedAt = 7, expiresAt = 60007\<rparr>),
                             (''key-1'', \<lparr>data = ''value-1'', fetchedAt = 7, expiresAt = 60007\<rparr>)],
             config = \<lparr>ttlSeconds = 60, maxEntries = 2\<rparr>\<rparr>"
  have ok: "map_ok ?c"
    by (simp add: map_ok_def)
  have keys: "[] \<notin> set (map fst (memoryCache ?c))"
    by simp
  have pos: "0 < maxEntries (config ?c)"
    by simp
  have full: "maxEntries (config ?c) \<le> int (length (memoryCache ?c))"
    by simp
  from setC_evicts_first_oldest [OF ok keys pos, of 9 "''key-1''" "''again''" None] full
  obtain pre k e post where
    f: "first_oldest (memoryCache ?c) pre k e post"
    and len: "Suc (length (pre @ post)) = length (memoryCache ?c)"
    by blast
  from f len have "\<exists>pre k e post.
      first_oldest [(''key-0'', \<lparr>data = ''value-0'', fetchedAt = 7, expiresAt = 60007\<rparr>),
                    (''key-1'', \<lparr>data = ''value-1'', fetchedAt = 7, expiresAt = 60007\<rparr>)]
        pre k e post
      \<and> Suc (length (pre @ post)) = 2"
    by auto
  moreover have "setC ?c 9 ''key-1'' ''again'' None
      = \<lparr>memoryCache = [(''key-1'', \<lparr>data = ''again'', fetchedAt = 9, expiresAt = 60009\<rparr>)],
         config = \<lparr>ttlSeconds = 60, maxEntries = 2\<rparr>\<rparr>"
    by (simp add: setC_def evictOldest_def Let_def)
  ultimately show ?thesis using ok by blast
qed

text \<open>
  C5: for a configuration with \<^verbatim>\<open>maxEntries = M > 0\<close> and every finite sequence of
  \<^verbatim>\<open>get\<close>, \<^verbatim>\<open>set\<close>, \<^verbatim>\<open>invalidate\<close> and \<^verbatim>\<open>invalidateAll\<close> calls with non-empty
  keys, run from the empty manager, \<^verbatim>\<open>getStats().size\<close> is at most \<open>M\<close> at the
  end; every prefix of a sequence is such a sequence, so the bound holds after
  every call, and in particular after setting more than \<open>M\<close> distinct keys.
\<close>

theorem size_within_maxEntries:
  assumes "0 < maxEntries cfg" and "\<forall>x \<in> set ops. set_key x \<noteq> Some []"
  shows "int (stats_size (getStats (run (newCacheManager cfg) ops))) \<le> maxEntries cfg"
proof -
  have "within_capacity (newCacheManager cfg :: 'a CacheManager)"
    using assms(1) by (simp add: within_capacity_def newCacheManager_def map_ok_def)
  with assms have "within_capacity (run (newCacheManager cfg) ops)
      \<and> config (run (newCacheManager cfg) ops) = (cfg :: CacheConfig)"
    using within_capacity_run [of "newCacheManager cfg" ops]
    by (simp add: newCacheManager_def)
  then have "int (length (memoryCache (run (newCacheManager cfg :: 'a CacheManager) ops))) \<le> maxEntries cfg"
    by (auto simp add: within_capacity_def)
  then show ?thesis
    by (simp add: getStats_def)
qed

text \<open>
  C5 with \<^verbatim>\<open>maxEntries = 2\<close> and four distinct keys set one after the other: two
  entries remain, the two set last.
\<close>

theorem size_within_maxEntries_witness:
  "0 < maxEntries \<lparr>ttlSeconds = 60, maxEntries = 2\<rparr>
   \<and> Some [] \<notin> set (map set_key
        [Set ''key-0'' ''value-0'' None 0, Set ''key-1'' ''value-1'' None 1,
         Set ''key-2'' ''value-2'' None 2, Set ''key-3'' ''value-3'' None 3])
   \<and> int (stats_size (getStats (run (newCacheManager \<lparr>ttlSeconds = 60, maxEntries = 2\<rparr>)
        [Set ''key-0'' ''value-0'' None 0, Set ''key-1'' ''value-1'' None 1,
         Set ''key-2'' ''value-2'' None 2, Set ''key-3'' ''value-3'' None 3])))
       \<le> maxEntries \<lparr>ttlSeconds = 60, maxEntries = 2\<rparr>
   \<and> map fst (memoryCache (run (newCacheManager \<lparr>ttlSeconds = 60, maxEntries = 2\<rparr>)
        [Set ''key-0'' ''value-0'' None 0, Set ''key-1'' ''value-1'' None 1,
         Set ''key-2'' ''value-2'' None 2, Set ''key-3'' ''value-3'' None 3]))
       = [''key-2'', ''key-3'']"
proof -
  let ?cfg = "\<lparr>ttlSeconds = 60, maxEntries = 2\<rparr>"
  let ?ops = "[Set ''key-0'' ''value-0'' None 0, Set ''key-1'' ''value-1'' None 1,
               Set ''key-2'' ''value-2'' None 2, Set ''key-3'' ''value-3'' None 3]"
  have pos: "0 < maxEntries ?cfg"
    by simp
  have keys: "\<forall>x \<in> set ?ops. set_key x \<noteq> Some []"
    by simp
  have bound: "int (stats_size (getStats (run (newCacheManager ?cfg) ?ops))) \<le> maxEntries ?cfg"
    by (rule size_within_maxEntries [OF pos keys])
  have "map fst (memoryCache (run (newCacheManager ?cfg) ?ops)) = [''key-2'', ''key-3'']"
    by (simp add: run_def setC_def evictOldest_def Let_def newCacheManager_def)
  moreover have "Some [] \<notin> set (map set_key ?ops)"
    by simp
  ultimately show ?thesis using pos bound by blast
qed

text \<open>
  The hypothesis on the keys cannot be dropped. When the oldest entry has the
  empty string as key, the scan finds it, the test \<^verbatim>\<open>if (oldestKey)\<close> reads the
  empty string as false, and nothing is removed: the new entry is appended to a
  full manager, and two calls from the empty manager with \<^verbatim>\<open>maxEntries = 1\<close>
  leave two entries.
\<close>

lemma setC_empty_key_not_evicted:
  "setC \<lparr>memoryCache = [('''', \<lparr>data = 1::nat, fetchedAt = 0, expiresAt = 60000\<rparr>)],
         config = \<lparr>ttlSeconds = 60, maxEntries = 1\<rparr>\<rparr> 5 ''a'' 2 None
   = \<lparr>memoryCache = [('''', \<lparr>data = 1, fetchedAt = 0, expiresAt = 60000\<rparr>),
                      (''a'', \<lparr>data = 2, fetchedAt = 5, expiresAt = 60005\<rparr>)],
      config = \<lparr>ttlSeconds = 60, maxEntries = 1\<rparr>\<rparr>"
  by (simp add: setC_def evictOldest_def Let_def)

lemma size_exceeds_maxEntries_empty_key:
  "stats_size (getStats (run (newCacheManager \<lparr>ttlSeconds = 60, maxEntries = 1\<rparr>)
      [Set '''' (1::nat) None 0, Set ''a'' 2 None 5])) = 2"
  by (simp add: run_def setC_def evictOldest_def Let_def newCacheManager_def getStats_def)

text \<open>
  C6: after \<^verbatim>\<open>set(k, v, ttlOverride)\<close> at clock value \<open>now\<close> on any manager, a
  \<^verbatim>\<open>get(k)\<close> at any clock value up to \<open>now + ttl * 1000\<close>, where \<open>ttl\<close> is
  \<^verbatim>\<open>ttlOverride ?? config.ttlSeconds\<close>, returns the entry with data \<open>v\<close>,
  \<^verbatim>\<open>fetchedAt = now\<close> and \<^verbatim>\<open>expiresAt = now + ttl * 1000\<close>, and leaves the manager
  as \<^verbatim>\<open>set\<close> left it.
\<close>

theorem set_then_get:
  assumes "now' \<le> now + (case ttlOverride of Some t \<Rightarrow> t | None \<Rightarrow> ttlSeconds (config c)) * 1000"
  shows "get (setC c now k v ttlOverride) now' k =
           (Some \<lparr>data = v, fetchedAt = now,
                  expiresAt = now + (case ttlOverride of Some t \<Rightarrow> t | None \<Rightarrow> ttlSeconds (config c)) * 1000\<rparr>,
            setC c now k v ttlOverride)"
  using assms by (simp add: get_def map_of_setC_same)

text \<open>C6 on the empty manager of the tests, read back just before the minute is over.\<close>

theorem set_then_get_witness:
  "(59999::int) \<le> 0 + (case None of Some t \<Rightarrow> t
        | None \<Rightarrow> ttlSeconds (config (newCacheManager \<lparr>ttlSeconds = 60, maxEntries = 10\<rparr> :: string CacheManager))) * 1000
   \<and> fst (get (setC (newCacheManager \<lparr>ttlSeconds = 60, maxEntries = 10\<rparr>) 0 ''test-key'' ''bar'' None)
             59999 ''test-key'')
       = Some \<lparr>data = ''bar'', fetchedAt = 0, expiresAt = 60000\<rparr>"
  using set_then_get
    [where now' = 59999 and now = 0 and ttlOverride = None and k = "''test-key''" and v = "''bar''"
       and c = "newCacheManager \<lparr>ttlSeconds = 60, maxEntries = 10\<rparr>"]
  by (simp add: newCacheManager_def)

text \<open>
  C7: \<^verbatim>\<open>invalidate(k)\<close> returns true exactly when \<open>k\<close> was in the map; a \<^verbatim>\<open>get(k)\<close>
  right after it returns null; and when \<open>k\<close> is not in the map (never inserted
  into a new manager, or invalidated), \<^verbatim>\<open>get(k)\<close> returns null after any sequence
  of calls that does not set \<open>k\<close>.
\<close>

theorem invalidate_get:
  "(fst (invalidate c k) \<longleftrightarrow> getStale c k \<noteq> None)
   \<and> fst (get (snd (invalidate c k)) now k) = None
   \<and> (getStale c k = None \<and> (\<forall>x \<in> set ops. set_key x \<noteq> Some k)
        \<longrightarrow> fst (get (run c ops) now k) = None)"
proof (intro conjI impI)
  show "fst (invalidate c k) \<longleftrightarrow> getStale c k \<noteq> None"
    by (simp add: invalidate_def getStale_def map_of_eq_None_iff)
  show "fst (get (snd (invalidate c k)) now k) = None"
    by (simp add: invalidate_def get_def delete_conv')
next
  assume a: "getStale c k = None \<and> (\<forall>x \<in> set ops. set_key x \<noteq> Some k)"
  then have "map_of (memoryCache (run c ops)) k = None"
    by (simp add: getStale_def map_of_run_None)
  then show "fst (get (run c ops) now k) = None"
    by (simp add: get_def)
qed

text \<open>
  C7 on a manager that holds \<^verbatim>\<open>to-delete\<close>: invalidating it returns true, and
  after other keys are set and read the key is still absent.
\<close>

theorem invalidate_get_witness:
  "fst (invalidate (setC (newCacheManager \<lparr>ttlSeconds = 60, maxEntries = 10\<rparr>) 0 ''to-delete'' ''data'' None)
         ''to-delete'')
   \<and> getStale (snd (invalidate (setC (newCacheManager \<lparr>ttlSeconds = 60, maxEntries = 10\<rparr>) 0 ''to-delete'' ''data'' None)
         ''to-delete'')) ''to-delete'' = None
   \<and> Some ''to-delete'' \<notin> set (map set_key [Set ''other'' ''data'' None 1, Get ''other'' 2])
   \<and> fst (get (run (snd (invalidate (setC (newCacheManager \<lparr>ttlSeconds = 60, maxEntries = 10\<rparr>) 0 ''to-delete'' ''data'' None)
         ''to-delete'')) [Set ''other'' ''data'' None 1, Get ''other'' 2]) 3 ''to-delete'') = None"
proof -
  let ?c = "setC (newCacheManager \<lparr>ttlSeconds = 60, maxEntries = 10\<rparr>) 0 ''to-delete'' ''data'' None"
  let ?ops = "[Set ''other'' ''data'' None 1, Get ''other'' 2]"
  have present: "getStale ?c ''to-delete'' \<noteq> None"
    by (simp add: getStale_def map_of_setC_same)
  have absent: "getStale (snd (invalidate ?c ''to-delete'')) ''to-delete'' = None"
    by (simp add: getStale_def invalidate_def delete_conv')
  have unset: "\<forall>x \<in> set ?ops. set_key x \<noteq> Some ''to-delete''"
    by simp
  from invalidate_get [of ?c "''to-delete''"] present
  have "fst (invalidate ?c ''to-delete'')" by blast
  moreover from invalidate_get [of "snd (invalidate ?c ''to-delete'')" "''to-delete''" 3 ?ops] absent unset
  have "fst (get (run (snd (invalidate ?c ''to-delete'')) ?ops) 3 ''to-delete'') = None" by blast
  moreover have "Some ''to-delete'' \<notin> set (map set_key ?ops)"
    by simp
  ultimately show ?thesis using absent by blast
qed

text \<open>
  C8: after \<^verbatim>\<open>invalidateAll()\<close> on any manager, \<^verbatim>\<open>getStats().size\<close> is 0 and
  \<^verbatim>\<open>get(k)\<close> is null for every key and at every clock value, whether or not the
  entries had expired.
\<close>

theorem invalidateAll_clears:
  "stats_size (getStats (invalidateAll c)) = 0 \<and> fst (get (invalidateAll c) now k) = None"
  by (simp add: getStats_def invalidateAll_def get_def)

subsection \<open>The fetch with its cache\<close>

lemma probe_cases:
  "probe c w endpoint opts = (None, c)
   \<or> (\<exists>entry. map_of (memoryCache c) (cacheKey endpoint) = Some entry
         \<and> expiresAt entry < clock_get w
         \<and> probe c w endpoint opts =
             (None, c\<lparr>memoryCache := AList.delete (cacheKey endpoint) (memoryCache c)\<rparr>))
   \<or> (\<exists>entry. map_of (memoryCache c) (cacheKey endpoint) = Some entry
         \<and> \<not> expiresAt entry < clock_get w
         \<and> probe c w endpoint opts = (Some entry, c))"
  by (simp add: probe_def get_def split: option.splits)

lemma tryBlock_failed:
  assumes "\<not> retrieved (network w (NOAA_ENDPOINTS endpoint))"
  shows "fst (snd (tryBlock c w endpoint opts)) = c"
  using assms
  by (cases "network w (NOAA_ENDPOINTS endpoint)")
     (auto simp add: tryBlock_def Let_def split: option.splits json_result.splits)

lemma tryBlock_urls: "snd (snd (tryBlock c w endpoint opts)) = [NOAA_ENDPOINTS endpoint]"
  by (simp add: tryBlock_def Let_def split: fetch_result.splits option.splits json_result.splits)

lemma tryBlock_success:
  assumes "tryBlock c w endpoint opts = (Inr r, c', urls)"
  shows "success r \<and> rdata r \<noteq> None"
  using assms
  by (auto simp add: tryBlock_def Let_def
      split: fetch_result.splits option.splits json_result.splits if_splits)

lemma catchBlock_result:
  "(success (catchBlock c endpoint err) \<and> rdata (catchBlock c endpoint err) \<noteq> None
      \<and> error (catchBlock c endpoint err) \<noteq> None)
   \<or> (success (catchBlock c endpoint err) = False \<and> rdata (catchBlock c endpoint err) = None
      \<and> error (catchBlock c endpoint err) = Some (message_of err))"
  by (simp add: catchBlock_def split: option.splits)

text \<open>
  C3: for every manager, world, endpoint and options, the promise of
  \<^verbatim>\<open>fetchEndpoint\<close> resolves (it is never rejected with a thrown value); the
  response is a success carrying data or a failure with \<^verbatim>\<open>success = false\<close>, no
  data and an error string; and the call requests at most one URL from the
  network, the endpoint's own.
\<close>

theorem fetchEndpoint_resolves:
  "\<exists>r c' urls. fetchEndpoint c w endpoint opts = (Inr r, c', urls)
     \<and> (if success r then rdata r \<noteq> None else rdata r = None \<and> error r \<noteq> None)
     \<and> length urls \<le> 1 \<and> set urls \<subseteq> {NOAA_ENDPOINTS endpoint}"
proof (cases "probe c w endpoint opts")
  case (Pair cached c1)
  show ?thesis
  proof (cases cached)
    case (Some entry)
    with Pair show ?thesis by (simp add: fetchEndpoint_def)
  next
    case None
    obtain res c' urls where t: "tryBlock c1 w endpoint opts = (res, c', urls)"
      by (cases "tryBlock c1 w endpoint opts") auto
    from tryBlock_urls [of c1 w endpoint opts] t have urls: "urls = [NOAA_ENDPOINTS endpoint]"
      by simp
    show ?thesis
    proof (cases res)
      case (Inr r)
      with t tryBlock_success [of c1 w endpoint opts r c' urls]
      have "success r \<and> rdata r \<noteq> None" by simp
      with Pair None t Inr urls show ?thesis by (simp add: fetchEndpoint_def)
    next
      case (Inl err)
      from catchBlock_result [of c' endpoint err]
      have "if success (catchBlock c' endpoint err)
            then rdata (catchBlock c' endpoint err) \<noteq> None
            else rdata (catchBlock c' endpoint err) = None \<and> error (catchBlock c' endpoint err) \<noteq> None"
        by auto
      with Pair None t Inl urls show ?thesis by (simp add: fetchEndpoint_def)
    qed
  qed
qed

text \<open>C3 at a call on the empty cache whose request throws a value that is no \<^verbatim>\<open>Error\<close>.\<close>

theorem fetchEndpoint_resolves_witness:
  "fetchEndpoint (newCacheManager \<lparr>ttlSeconds = 300, maxEntries = 100\<rparr> :: string CacheManager)
     \<lparr>network = (\<lambda>url. FetchThrows NotAnError), clock_get = 0, clock_set = 0, clock_return = 0\<rparr>
     ALERTS None
   = (Inr \<lparr>success = False, rdata = None, error = Some ''Unknown error'', cachedAt = None,
           source = Fetch\<rparr>,
      newCacheManager \<lparr>ttlSeconds = 300, maxEntries = 100\<rparr>,
      [''https://services.swpc.noaa.gov/products/alerts.json''])"
proof -
  let ?c = "newCacheManager \<lparr>ttlSeconds = 300, maxEntries = 100\<rparr> :: string CacheManager"
  let ?w = "\<lparr>network = (\<lambda>url. FetchThrows NotAnError :: string fetch_result),
             clock_get = 0, clock_set = 0, clock_return = 0\<rparr>"
  from fetchEndpoint_resolves [of ?c ?w ALERTS None]
  obtain r c' urls where resolved: "fetchEndpoint ?c ?w ALERTS None = (Inr r, c', urls)"
    and "if success r then rdata r \<noteq> None else rdata r = None \<and> error r \<noteq> None"
    and "length urls \<le> 1"
    by blast
  have "fetchEndpoint ?c ?w ALERTS None
          = (Inr \<lparr>success = False, rdata = None, error = Some ''Unknown error'', cachedAt = None,
                  source = Fetch\<rparr>,
             ?c, [''https://services.swpc.noaa.gov/products/alerts.json''])"
    by (simp add: fetchEndpoint_def probe_def not_forceRefresh_def get_def cacheKey_def
        tryBlock_def catchBlock_def getStale_def newCacheManager_def Let_def)
  with resolved show ?thesis
    by simp
qed

text \<open>
  C4 at the input where the code departs from it: the cache holds an expired
  entry for \<^verbatim>\<open>noaa_KP_INDEX\<close> (fetched at 0 with the 180 s TTL, read at 180001),
  no \<^verbatim>\<open>forceRefresh\<close>, and the server answers 500. The probing \<^verbatim>\<open>cache.get\<close>
  deletes the expired entry, so both stale reads find nothing: the call fails
  with \<^verbatim>\<open>HTTP 500: Internal Server Error\<close> and the entry is gone.
\<close>

theorem fetchEndpoint_expired_entry_no_fallback:
  "fetchEndpoint
     \<lparr>memoryCache = [(''noaa_KP_INDEX'', \<lparr>data = ''kp'', fetchedAt = 0, expiresAt = 180000\<rparr>)],
      config = \<lparr>ttlSeconds = 300, maxEntries = 100\<rparr>\<rparr>
     \<lparr>network = (\<lambda>url. Response 500 ''Internal Server Error'' (JsonThrows NotAnError)),
      clock_get = 180001, clock_set = 180001, clock_return = 180001\<rparr>
     KP_INDEX None
   = (Inr \<lparr>success = False, rdata = None, error = Some ''HTTP 500: Internal Server Error'',
           cachedAt = None, source = Fetch\<rparr>,
      \<lparr>memoryCache = [], config = \<lparr>ttlSeconds = 300, maxEntries = 100\<rparr>\<rparr>,
      [''https://services.swpc.noaa.gov/products/noaa-planetary-k-index.json''])"
proof -
  have "string_of_nat 500 = ''500''"
    by code_simp
  then show ?thesis
    by (simp add: fetchEndpoint_def probe_def not_forceRefresh_def get_def cacheKey_def
        tryBlock_def catchBlock_def getStale_def ok_def Let_def)
qed

text \<open>
  What holds of the fallback: it reads the manager as the probe left it. When
  the retrieval fails and that manager holds an entry for the key, the response
  is a success from the cache with the entry's data and \<^verbatim>\<open>fetchedAt\<close> and a
  non-empty advisory; when it holds none, the response is a failure with an
  error string. With \<^verbatim>\<open>forceRefresh\<close> the probe is skipped and the manager is the
  caller's.
\<close>

lemma fetchEndpoint_fallback:
  assumes miss: "probe c w endpoint opts = (None, c1)"
    and failed: "\<not> retrieved (network w (NOAA_ENDPOINTS endpoint))"
  shows "\<exists>r. fetchEndpoint c w endpoint opts = (Inr r, c1, [NOAA_ENDPOINTS endpoint])
           \<and> (case getStale c1 (cacheKey endpoint) of
                 Some stale \<Rightarrow>
                   success r \<and> rdata r = Some (data stale) \<and> source r = Cache
                   \<and> cachedAt r = Some (fetchedAt stale)
                   \<and> (\<exists>m. error r = Some m \<and> m \<noteq> [])
               | None \<Rightarrow> success r = False \<and> rdata r = None \<and> (\<exists>m. error r = Some m))"
proof (cases "network w (NOAA_ENDPOINTS endpoint)")
  case (FetchThrows err)
  with miss show ?thesis
    by (simp add: fetchEndpoint_def tryBlock_def catchBlock_def Let_def split: option.splits)
next
  case (Response status statusText body)
  show ?thesis
  proof (cases "ok status")
    case False
    with miss Response show ?thesis
      by (simp add: fetchEndpoint_def tryBlock_def catchBlock_def Let_def split: option.splits)
  next
    case True
    with failed Response obtain err where "body = JsonThrows err"
      by (cases body) simp_all
    with miss Response True show ?thesis
      by (simp add: fetchEndpoint_def tryBlock_def catchBlock_def Let_def split: option.splits)
  qed
qed

lemma probe_forceRefresh:
  "probe c w endpoint (Some \<lparr>forceRefresh = Some True, ttl = t\<rparr>) = (None, c)"
  by (simp add: probe_def not_forceRefresh_def)

lemma probe_leaves_no_entry:
  assumes "not_forceRefresh opts" and "probe c w endpoint opts = (None, c1)"
  shows "getStale c1 (cacheKey endpoint) = None"
  using assms
  by (auto simp add: probe_def get_def getStale_def delete_conv' split: option.splits if_splits)

text \<open>
  C9: the switch of \<^verbatim>\<open>getTtlForEndpoint\<close> gives 60 for the two flux and the two
  solar-wind endpoints and for the alerts, 180 for the Kp index, 3600 for the two
  forecasts, 86400 for the sunspot numbers and 180 for the remaining endpoints;
  and on the path that inserts (no cache hit, a 2xx response whose body parses)
  the entry stored under the endpoint's key expires \<open>ttl * 1000\<close> after the
  clock value of the insertion, where \<open>ttl\<close> is the \<^verbatim>\<open>ttl\<close> option when it is given
  and the switch's value otherwise.
\<close>

theorem ttl_by_endpoint:
  "getTtlForEndpoint XRAY_FLUX = 60 \<and> getTtlForEndpoint PROTON_FLUX = 60
   \<and> getTtlForEndpoint SOLAR_WIND_REALTIME = 60 \<and> getTtlForEndpoint SOLAR_WIND_MAG = 60
   \<and> getTtlForEndpoint KP_INDEX = 180
   \<and> getTtlForEndpoint FORECAST_27DAY = 3600 \<and> getTtlForEndpoint PREDICTED_SFI = 3600
   \<and> getTtlForEndpoint SUNSPOT_NUMBER = 86400
   \<and> getTtlForEndpoint ALERTS = 60
   \<and> getTtlForEndpoint DST_INDEX = 180 \<and> getTtlForEndpoint AURORA_FORECAST = 180
   \<and> (fst (probe c w endpoint opts) = None
        \<and> network w (NOAA_ENDPOINTS endpoint) = Response status statusText (Payload d)
        \<and> ok status
      \<longrightarrow> getStale (fst (snd (fetchEndpoint c w endpoint opts))) (cacheKey endpoint)
            = Some \<lparr>data = d, fetchedAt = clock_set w,
                    expiresAt = clock_set w
                      + (case options_ttl opts of Some t \<Rightarrow> t | None \<Rightarrow> getTtlForEndpoint endpoint) * 1000\<rparr>)"
proof -
  have "getStale (fst (snd (fetchEndpoint c w endpoint opts))) (cacheKey endpoint)
          = Some \<lparr>data = d, fetchedAt = clock_set w,
                  expiresAt = clock_set w
                    + (case options_ttl opts of Some t \<Rightarrow> t | None \<Rightarrow> getTtlForEndpoint endpoint) * 1000\<rparr>"
    if miss: "fst (probe c w endpoint opts) = None"
      and resp: "network w (NOAA_ENDPOINTS endpoint) = Response status statusText (Payload d)"
      and ok: "ok status"
  proof -
    obtain c1 where p: "probe c w endpoint opts = (None, c1)"
      using miss by (cases "probe c w endpoint opts") simp
    show ?thesis
      using resp ok
      by (simp add: fetchEndpoint_def p tryBlock_def Let_def getStale_def map_of_setC_same)
  qed
  then show ?thesis by simp
qed

text \<open>
  C9 on the empty cache: a fetched Kp index is kept for 180 s, and for 5 s when
  the caller says so.
\<close>

theorem ttl_by_endpoint_witness:
  "getStale (fst (snd (fetchEndpoint (newCacheManager \<lparr>ttlSeconds = 300, maxEntries = 100\<rparr>)
       \<lparr>network = (\<lambda>url. Response 200 ''OK'' (Payload ''kp'')),
        clock_get = 1000, clock_set = 1001, clock_return = 1002\<rparr>
       KP_INDEX None))) (cacheKey KP_INDEX)
     = Some \<lparr>data = ''kp'', fetchedAt = 1001, expiresAt = 181001\<rparr>
   \<and> getStale (fst (snd (fetchEndpoint (newCacheManager \<lparr>ttlSeconds = 300, maxEntries = 100\<rparr>)
       \<lparr>network = (\<lambda>url. Response 200 ''OK'' (Payload ''kp'')),
        clock_get = 1000, clock_set = 1001, clock_return = 1002\<rparr>
       KP_INDEX (Some \<lparr>forceRefresh = None, ttl = Some 5\<rparr>)))) (cacheKey KP_INDEX)
     = Some \<lparr>data = ''kp'', fetchedAt = 1001, expiresAt = 6001\<rparr>"
proof -
  let ?c = "newCacheManager \<lparr>ttlSeconds = 300, maxEntries = 100\<rparr> :: string CacheManager"
  let ?w = "\<lparr>network = (\<lambda>url. Response 200 ''OK'' (Payload ''kp'')),
             clock_get = 1000, clock_set = 1001, clock_return = 1002\<rparr>"
  have miss: "fst (probe ?c ?w KP_INDEX opts) = None" for opts
    by (simp add: probe_def get_def newCacheManager_def)
  have resp: "network ?w (NOAA_ENDPOINTS KP_INDEX) = Response 200 ''OK'' (Payload ''kp'')"
    by simp
  have ok: "ok 200"
    by (simp add: ok_def)
  from ttl_by_endpoint [of ?c ?w KP_INDEX None 200 "''OK''" "''kp''"] miss resp ok
  have 1: "getStale (fst (snd (fetchEndpoint ?c ?w KP_INDEX None))) (cacheKey KP_INDEX)
             = Some \<lparr>data = ''kp'', fetchedAt = 1001, expiresAt = 181001\<rparr>"
    by (simp add: options_ttl_def)
  from ttl_by_endpoint [of ?c ?w KP_INDEX "Some \<lparr>forceRefresh = None, ttl = Some 5\<rparr>" 200 "''OK''" "''kp''"]
    miss resp ok
  have 2: "getStale (fst (snd (fetchEndpoint ?c ?w KP_INDEX (Some \<lparr>forceRefresh = None, ttl = Some 5\<rparr>))))
               (cacheKey KP_INDEX)
             = Some \<lparr>data = ''kp'', fetchedAt = 1001, expiresAt = 6001\<rparr>"
    by (simp add: options_ttl_def)
  from 1 2 show ?thesis by simp
qed

text \<open>
  C10: when the retrieval does not complete successfully (the request throws,
  the status is not 2xx, or the body does not parse), the manager after
  \<^verbatim>\<open>fetchEndpoint\<close> is the manager as the probing \<^verbatim>\<open>cache.get\<close> left it, and that
  is the manager before the call, or the manager before the call without the
  entry of the endpoint's key, which had expired.
\<close>

theorem failed_fetch_keeps_cache:
  assumes "\<not> retrieved (network w (NOAA_ENDPOINTS endpoint))"
  shows "fst (snd (fetchEndpoint c w endpoint opts)) = snd (probe c w endpoint opts)
         \<and> (snd (probe c w endpoint opts) = c
            \<or> (\<exists>entry. map_of (memoryCache c) (cacheKey endpoint) = Some entry
                  \<and> expiresAt entry < clock_get w
                  \<and> snd (probe c w endpoint opts)
                      = c\<lparr>memoryCache := AList.delete (cacheKey endpoint) (memoryCache c)\<rparr>))"
proof
  obtain cached c1 where p: "probe c w endpoint opts = (cached, c1)"
    by (cases "probe c w endpoint opts") auto
  obtain res c' urls where t: "tryBlock c1 w endpoint opts = (res, c', urls)"
    by (cases "tryBlock c1 w endpoint opts") auto
  from tryBlock_failed [OF assms, of c1 opts] t have "c' = c1" by simp
  with p t show "fst (snd (fetchEndpoint c w endpoint opts)) = snd (probe c w endpoint opts)"
    by (cases cached; cases res) (simp_all add: fetchEndpoint_def)
next
  from probe_cases [of c w endpoint opts]
  show "snd (probe c w endpoint opts) = c
        \<or> (\<exists>entry. map_of (memoryCache c) (cacheKey endpoint) = Some entry
              \<and> expiresAt entry < clock_get w
              \<and> snd (probe c w endpoint opts)
                  = c\<lparr>memoryCache := AList.delete (cacheKey endpoint) (memoryCache c)\<rparr>)"
    by auto
qed

text \<open>
  C10 at a call whose response body does not parse, on a cache that holds a
  live entry for another endpoint: the cache is as before.
\<close>

theorem failed_fetch_keeps_cache_witness:
  "\<not> retrieved (network
        \<lparr>network = (\<lambda>url. Response 200 ''OK'' (JsonThrows (Error ''Unexpected token''))),
         clock_get = 10, clock_set = 11, clock_return = 12\<rparr> (NOAA_ENDPOINTS ALERTS))
   \<and> fst (snd (fetchEndpoint
        \<lparr>memoryCache = [(''noaa_KP_INDEX'', \<lparr>data = ''kp'', fetchedAt = 0, expiresAt = 180000\<rparr>)],
         config = \<lparr>ttlSeconds = 300, maxEntries = 100\<rparr>\<rparr>
        \<lparr>network = (\<lambda>url. Response 200 ''OK'' (JsonThrows (Error ''Unexpected token''))),
         clock_get = 10, clock_set = 11, clock_return = 12\<rparr>
        ALERTS None))
     = \<lparr>memoryCache = [(''noaa_KP_INDEX'', \<lparr>data = ''kp'', fetchedAt = 0, expiresAt = 180000\<rparr>)],
        config = \<lparr>ttlSeconds = 300, maxEntries = 100\<rparr>\<rparr>"
proof -
  let ?c = "\<lparr>memoryCache = [(''noaa_KP_INDEX'', \<lparr>data = ''kp'', fetchedAt = 0, expiresAt = 180000\<rparr>)],
             config = \<lparr>ttlSeconds = 300, maxEntries = 100\<rparr>\<rparr>"
  let ?w = "\<lparr>network = (\<lambda>url. Response 200 ''OK'' (JsonThrows (Error ''Unexpected token''))),
             clock_get = 10, clock_set = 11, clock_return = 12\<rparr> :: string world"
  have failed: "\<not> retrieved (network ?w (NOAA_ENDPOINTS ALERTS))"
    by simp
  have "snd (probe ?c ?w ALERTS None) = ?c"
    by (simp add: probe_def get_def cacheKey_def)
  with failed_fetch_keeps_cache [OF failed, of ?c None] failed show ?thesis
    by simp
qed

end
